theory Spec2Isabelle
  imports Complex_Main
begin

section \<open>Allocation table, monthly investment plan and CAGR estimates\<close>

text \<open>
  The theory embeds the three computational parts of \<^verbatim>\<open>Gen_AI.py\<close>:
  \<^item> \<^verbatim>\<open>get_portfolio_allocation\<close> (lines 27 to 33);
  \<^item> the monthly investment plan of the page script (lines 125 to 143);
  \<^item> \<^verbatim>\<open>fetch_cagr\<close> (lines 51 to 60) and the average of its results (lines 156 to 159).

  Numbers. Python \<^verbatim>\<open>int\<close> is \<^typ>\<open>int\<close>. A Python \<^verbatim>\<open>float\<close> and a numpy
  \<^verbatim>\<open>float64\<close> are IEEE 754 binary64 values: a finite value is the real number it
  holds, and every operation returns the exact result rounded to the nearest
  representable value, a tie going to the even neighbour. The one thing the model does
  not tell apart is the sign of a zero. The one operation whose rounding neither Python
  nor C fixes is the C library's \<^verbatim>\<open>pow\<close>: it is a parameter of the functions that
  call it.
\<close>

subsection \<open>Errors and rounding to an integer\<close>

datatype py_error = ZeroDivisionError | IndexError | OverflowError | ValueError

text \<open>
  \<^verbatim>\<open>round(x)\<close> on a finite float, and \<^verbatim>\<open>rint\<close>: the nearest integer, a tie going to
  the even one.
\<close>

definition py_round :: "real \<Rightarrow> int" where
  "py_round x =
     (let f = \<lfloor>x\<rfloor>; d = x - of_int f
      in if d < 1 / 2 then f
         else if 1 / 2 < d then f + 1
         else if even f then f else f + 1)"

subsection \<open>Binary64 values and arithmetic\<close>

datatype double = Fin real | PInf | NInf | NaN

text \<open>
  Rounding a real number to binary64. A value of magnitude in \<open>[2 ^ k, 2 ^ (k + 1))\<close>
  is a multiple of \<open>2 ^ (k - 52)\<close>; below \<open>2 ^ - 1022\<close> (subnormal values) the spacing
  stays \<open>2 ^ - 1074\<close>; a result of magnitude \<open>2 ^ 1024\<close> or more is an infinity.
\<close>

definition ulp_exponent :: "real \<Rightarrow> int" where
  "ulp_exponent x = max \<lfloor>log 2 \<bar>x\<bar>\<rfloor> (- 1022) - 52"

definition round_double :: "real \<Rightarrow> double" where
  "round_double x =
     (if x = 0 then Fin 0
      else
        (let e = ulp_exponent x;
             y = of_int (py_round (x / 2 powi e)) * 2 powi e
         in if 2 ^ 1024 \<le> \<bar>y\<bar> then (if 0 < x then PInf else NInf) else Fin y))"

definition is_negative :: "double \<Rightarrow> bool" where
  "is_negative x = (case x of Fin a \<Rightarrow> a < 0 | NInf \<Rightarrow> True | _ \<Rightarrow> False)"

definition d_neg :: "double \<Rightarrow> double" where
  "d_neg x = (case x of Fin a \<Rightarrow> Fin (- a) | PInf \<Rightarrow> NInf | NInf \<Rightarrow> PInf | NaN \<Rightarrow> NaN)"

definition d_add :: "double \<Rightarrow> double \<Rightarrow> double" where
  "d_add x y =
     (case (x, y) of
        (Fin a, Fin b) \<Rightarrow> round_double (a + b)
      | (NaN, _) \<Rightarrow> NaN
      | (_, NaN) \<Rightarrow> NaN
      | (PInf, NInf) \<Rightarrow> NaN
      | (NInf, PInf) \<Rightarrow> NaN
      | (PInf, _) \<Rightarrow> PInf
      | (_, PInf) \<Rightarrow> PInf
      | (NInf, _) \<Rightarrow> NInf
      | (_, NInf) \<Rightarrow> NInf)"

definition d_sub :: "double \<Rightarrow> double \<Rightarrow> double" where
  "d_sub x y = d_add x (d_neg y)"

definition d_mul :: "double \<Rightarrow> double \<Rightarrow> double" where
  "d_mul x y =
     (case (x, y) of
        (Fin a, Fin b) \<Rightarrow> round_double (a * b)
      | (NaN, _) \<Rightarrow> NaN
      | (_, NaN) \<Rightarrow> NaN
      | _ \<Rightarrow> (if x = Fin 0 \<or> y = Fin 0 then NaN
              else if is_negative x = is_negative y then PInf else NInf))"

text \<open>
  IEEE division, as numpy performs it: a division by zero returns an infinity, or
  \<^verbatim>\<open>nan\<close> for 0 / 0, and raises nothing.
\<close>

definition d_div :: "double \<Rightarrow> double \<Rightarrow> double" where
  "d_div x y =
     (case (x, y) of
        (NaN, _) \<Rightarrow> NaN
      | (_, NaN) \<Rightarrow> NaN
      | (Fin a, Fin b) \<Rightarrow>
          (if b \<noteq> 0 then round_double (a / b)
           else if a = 0 then NaN
           else if 0 < a then PInf else NInf)
      | (Fin a, _) \<Rightarrow> Fin 0
      | (_, Fin b) \<Rightarrow> (if is_negative x = (b < 0) then PInf else NInf)
      | _ \<Rightarrow> NaN)"

definition d_rint :: "double \<Rightarrow> double" where
  "d_rint x = (case x of Fin a \<Rightarrow> Fin (of_int (py_round a)) | _ \<Rightarrow> x)"

text \<open>
  Python's float division \<^verbatim>\<open>a / b\<close> raises \<^verbatim>\<open>ZeroDivisionError\<close> for a zero divisor.
  The conversion of an int to a float rounds correctly and raises \<^verbatim>\<open>OverflowError\<close>
  when the int is too large. \<^verbatim>\<open>round(x)\<close> on a float returns an int, and raises
  \<^verbatim>\<open>OverflowError\<close> on an infinity and \<^verbatim>\<open>ValueError\<close> on \<^verbatim>\<open>nan\<close>.
\<close>

definition float_div :: "double \<Rightarrow> double \<Rightarrow> py_error + double" where
  "float_div x y = (if y = Fin 0 then Inl ZeroDivisionError else Inr (d_div x y))"

definition float_of_int :: "int \<Rightarrow> py_error + double" where
  "float_of_int n =
     (case round_double (of_int n) of Fin a \<Rightarrow> Inr (Fin a) | _ \<Rightarrow> Inl OverflowError)"

definition float_round :: "double \<Rightarrow> py_error + int" where
  "float_round x =
     (case x of Fin a \<Rightarrow> Inr (py_round a) | NaN \<Rightarrow> Inl ValueError | _ \<Rightarrow> Inl OverflowError)"

text \<open>Sequencing of two steps of which the first may raise.\<close>

definition and_then :: "py_error + 'a \<Rightarrow> ('a \<Rightarrow> py_error + 'b) \<Rightarrow> py_error + 'b" where
  "and_then m f = (case m of Inl e \<Rightarrow> Inl e | Inr v \<Rightarrow> f v)"

text \<open>
  The C library's \<^verbatim>\<open>pow(b, w)\<close> for a finite base \<open>b > 0\<close> other than 1 and a finite
  exponent \<open>w\<close> other than 0 is a parameter \<open>pw\<close> of the functions below. Where a
  concrete library is needed, this one rounds the exact power correctly; no property
  proved below depends on the choice.
\<close>

type_synonym libm_pow = "real \<Rightarrow> real \<Rightarrow> double"

definition pow_rounded :: libm_pow where
  "pow_rounded b w = round_double (b powr w)"

text \<open>
  \<^verbatim>\<open>b ** n\<close> for a float \<open>b\<close> and an int \<open>n\<close>, as CPython's \<^verbatim>\<open>float_pow\<close> does it:
  the int is converted to a float; a zero exponent gives 1.0; \<^verbatim>\<open>nan\<close>, the infinities,
  a zero base (which raises for a negative exponent) and a base of magnitude 1 are
  settled without the library; what is left goes to \<^verbatim>\<open>pow\<close> on the magnitude of the
  base, the sign restored for an odd exponent, and an infinite result raises
  \<^verbatim>\<open>OverflowError\<close>.
\<close>

definition float_pow :: "libm_pow \<Rightarrow> double \<Rightarrow> int \<Rightarrow> py_error + double" where
  "float_pow pw base n =
     and_then (float_of_int n) (\<lambda>wd.
       case wd of
         Fin w \<Rightarrow>
           (if w = 0 then Inr (Fin 1)
            else case base of
              NaN \<Rightarrow> Inr NaN
            | PInf \<Rightarrow> Inr (if 0 < w then PInf else Fin 0)
            | NInf \<Rightarrow> Inr (if 0 < w then (if odd \<lfloor>w\<rfloor> then NInf else PInf) else Fin 0)
            | Fin b \<Rightarrow>
                (if b = 0 then (if w < 0 then Inl ZeroDivisionError else Inr (Fin 0))
                 else if \<bar>b\<bar> = 1 then Inr (Fin (if b < 0 \<and> odd \<lfloor>w\<rfloor> then - 1 else 1))
                 else case pw \<bar>b\<bar> w of
                   Fin z \<Rightarrow> Inr (Fin (if b < 0 \<and> odd \<lfloor>w\<rfloor> then - z else z))
                 | NaN \<Rightarrow> Inl ValueError
                 | _ \<Rightarrow> Inl OverflowError))
       | _ \<Rightarrow> Inl OverflowError)"

subsection \<open>Portfolio allocation (lines 27 to 33)\<close>

text \<open>
  The returned dict is an association list in insertion order (the pie chart reads
  \<^verbatim>\<open>allocation.keys()\<close> and \<^verbatim>\<open>allocation.values()\<close> in that order).
\<close>

type_synonym allocation = "(string \<times> int) list"

definition get_portfolio_allocation :: "string \<Rightarrow> allocation" where
  "get_portfolio_allocation risk =
     (if risk = ''Low'' then [(''Equity'', 30), (''Debt'', 60), (''Gold'', 10)]
      else if risk = ''Medium'' then [(''Equity'', 50), (''Debt'', 40), (''Gold'', 10)]
      else [(''Equity'', 70), (''Debt'', 20), (''Gold'', 10)])"

text \<open>The options of the risk-tolerance select box (line 103).\<close>

definition risk_options :: "string list" where
  "risk_options = [''Low'', ''Medium'', ''High'']"

text \<open>The sum of the percentages of an allocation.\<close>

definition percent_total :: "allocation \<Rightarrow> int" where
  "percent_total a = sum_list (map snd a)"

subsection \<open>Monthly investment plan (lines 125 to 143)\<close>

text \<open>
  \<^verbatim>\<open>
  months = years * 12
  monthly_rate = rate / 100 / 12
  \<close>
  \<open>rate\<close> is a finite float (the value of a slider), \<open>years\<close> an int.
\<close>

definition monthly_rate_of :: "real \<Rightarrow> double" where
  "monthly_rate_of rate = d_div (d_div (Fin rate) (Fin 100)) (Fin 12)"

text \<open>
  The branch \<^verbatim>\<open>plan_type == "I know my goal amount"\<close> (lines 133 to 135), \<open>target\<close>
  being the int of a number input:
  \<^verbatim>\<open>
  monthly = target * monthly_rate / ((1 + monthly_rate) ** months - 1)
  monthly = round(monthly)
  \<close>
  The steps run in Python's order: the product, the power, the difference, the
  quotient, the rounding. The result is the rounded \<open>monthly\<close>, or the exception raised.
\<close>

definition goal_monthly :: "libm_pow \<Rightarrow> int \<Rightarrow> real \<Rightarrow> int \<Rightarrow> py_error + int" where
  "goal_monthly pw target rate years =
     (let months = years * 12;
          monthly_rate = monthly_rate_of rate
      in and_then (float_of_int target) (\<lambda>t.
         let product = d_mul t monthly_rate
         in and_then (float_pow pw (d_add (Fin 1) monthly_rate) months) (\<lambda>p.
            and_then (float_div product (d_sub p (Fin 1))) float_round)))"

text \<open>
  The other branch (lines 139 to 141), \<open>monthly\<close> being the int of a number input:
  \<^verbatim>\<open>
  future_value = monthly * (((1 + monthly_rate) ** months - 1) / monthly_rate)
  future_value = round(future_value)
  \<close>
  The parenthesis is evaluated before \<open>monthly\<close> is converted for the product.
\<close>

definition monthly_future_value :: "libm_pow \<Rightarrow> int \<Rightarrow> real \<Rightarrow> int \<Rightarrow> py_error + int" where
  "monthly_future_value pw monthly rate years =
     (let months = years * 12;
          monthly_rate = monthly_rate_of rate
      in and_then (float_pow pw (d_add (Fin 1) monthly_rate) months) (\<lambda>p.
         and_then (float_div (d_sub p (Fin 1)) monthly_rate) (\<lambda>factor.
         and_then (float_of_int monthly) (\<lambda>m.
           float_round (d_mul m factor)))))"

subsection \<open>CAGR of a price history (lines 51 to 60)\<close>

text \<open>
  \<^verbatim>\<open>x ** e\<close> for a numpy \<^verbatim>\<open>float64\<close> \<open>x\<close> and a finite float exponent \<open>e\<close> is the C
  library's \<^verbatim>\<open>pow\<close>, which raises nothing. Its special cases are those of the C
  standard: any base to the power 0 is 1, and 1 to any power is 1; \<^verbatim>\<open>nan\<close> gives
  \<^verbatim>\<open>nan\<close>; zero to a negative power is \<^verbatim>\<open>inf\<close>; a negative base has a power only for
  a whole exponent.
\<close>

definition is_whole :: "real \<Rightarrow> bool" where
  "is_whole e = (of_int \<lfloor>e\<rfloor> = e)"

definition np_power :: "libm_pow \<Rightarrow> double \<Rightarrow> real \<Rightarrow> double" where
  "np_power pw x e =
     (if e = 0 then Fin 1
      else case x of
        NaN \<Rightarrow> NaN
      | PInf \<Rightarrow> (if 0 < e then PInf else Fin 0)
      | NInf \<Rightarrow> (if e < 0 then Fin 0
                 else if is_whole e \<and> odd \<lfloor>e\<rfloor> then NInf else PInf)
      | Fin q \<Rightarrow>
          (if q = 1 then Fin 1
           else if q = 0 then (if 0 < e then Fin 0 else PInf)
           else if 0 < q then pw q e
           else if \<not> is_whole e then NaN
           else if q = - 1 then Fin (if odd \<lfloor>e\<rfloor> then - 1 else 1)
           else if odd \<lfloor>e\<rfloor> then d_neg (pw (- q) e) else pw (- q) e))"

text \<open>
  \<^verbatim>\<open>round(x, 2)\<close> on a numpy \<^verbatim>\<open>float64\<close>: numpy multiplies by 100.0, applies
  \<^verbatim>\<open>rint\<close> and divides by 100.0, each step in binary64.
\<close>

definition np_round2 :: "double \<Rightarrow> double" where
  "np_round2 x = d_div (d_rint (d_mul x (Fin 100))) (Fin 100)"

text \<open>
  The data frame that \<^verbatim>\<open>yf.download\<close> returns: the row labels (dates, oldest first)
  and the columns in order, each with one value per row. The cells are finite values.
  \<^verbatim>\<open>data.empty\<close> holds when either axis has length 0; \<^verbatim>\<open>"Adj Close" in data\<close> looks
  the label up among the columns.
\<close>

record dataframe =
  df_index :: "string list"
  df_columns :: "(string \<times> real list) list"

definition df_empty :: "dataframe \<Rightarrow> bool" where
  "df_empty data = (df_index data = [] \<or> df_columns data = [])"

definition df_contains :: "dataframe \<Rightarrow> string \<Rightarrow> bool" where
  "df_contains data label = (map_of (df_columns data) label \<noteq> None)"

text \<open>
  \<^verbatim>\<open>1 / years\<close> on the int \<open>years\<close>: Python's true division of ints raises
  \<^verbatim>\<open>ZeroDivisionError\<close> for a zero divisor and returns the correctly rounded quotient.
\<close>

definition int_true_div :: "int \<Rightarrow> int \<Rightarrow> py_error + real" where
  "int_true_div a b =
     (if b = 0 then Inl ZeroDivisionError
      else case round_double (of_int a / of_int b) of
        Fin q \<Rightarrow> Inr q
      | _ \<Rightarrow> Inl OverflowError)"

text \<open>
  \<^verbatim>\<open>fetch_cagr(ticker, years=5)\<close> after the download, as a function of the frame
  downloaded:
  \<^verbatim>\<open>
  if data.empty or "Adj Close" not in data:
      return None
  start_price = data["Adj Close"].iloc[0]
  end_price = data["Adj Close"].iloc[-1]
  cagr = ((end_price / start_price) ** (1 / years)) - 1
  return round(cagr * 100, 2)
  \<close>
  \<^verbatim>\<open>.iloc[0]\<close> on a series without rows raises \<^verbatim>\<open>IndexError\<close>.
\<close>

definition fetch_cagr :: "libm_pow \<Rightarrow> dataframe \<Rightarrow> int \<Rightarrow> py_error + double option" where
  "fetch_cagr pw data years =
     (if df_empty data \<or> \<not> df_contains data ''Adj Close'' then Inr None
      else case map_of (df_columns data) ''Adj Close'' of
        None \<Rightarrow> Inr None
      | Some prices \<Rightarrow>
          (case prices of
             [] \<Rightarrow> Inl IndexError
           | _ # _ \<Rightarrow>
               (let start_price = Fin (hd prices);
                    end_price = Fin (last prices);
                    ratio = d_div end_price start_price
                in and_then (int_true_div 1 years) (\<lambda>e.
                   let cagr = d_sub (np_power pw ratio e) (Fin 1)
                   in Inr (Some (np_round2 (d_mul cagr (Fin 100))))))))"

subsection \<open>Average CAGR (lines 156 to 159)\<close>

text \<open>
  \<^verbatim>\<open>
  valid_returns = [r for r in returns.values() if r is not None]
  if valid_returns:
      avg_cagr = round(sum(valid_returns) / len(valid_returns), 2)
  \<close>
  \<open>returns\<close> holds the results of \<^verbatim>\<open>fetch_cagr\<close> in the order of the dict. When no
  value is present no average is computed: the result is \<open>None\<close>.
\<close>

text \<open>\<^verbatim>\<open>sum\<close> starts from 0 and adds the values from left to right.\<close>

definition np_sum :: "double list \<Rightarrow> double" where
  "np_sum xs = foldl d_add (Fin 0) xs"

text \<open>The values of a list that are not \<open>None\<close>, in order.\<close>

fun present :: "'a option list \<Rightarrow> 'a list" where
  "present [] = []"
| "present (None # rs) = present rs"
| "present (Some r # rs) = r # present rs"

definition avg_cagr :: "double option list \<Rightarrow> double option" where
  "avg_cagr returns =
     (let valid_returns = present returns
      in if valid_returns \<noteq> []
         then Some (np_round2 (d_div (np_sum valid_returns)
                                    (Fin (real (length valid_returns)))))
         else None)"

section \<open>Properties\<close>

subsection \<open>Allocation table\<close>

text \<open>
  C5. The allocation is a total function with no failure mode (its result type has no
  error alternative, since every branch of the source returns a dict), and on the three
  risk labels of the form, Low, Medium and High in this order, it returns exactly
  Equity 30, Debt 60, Gold 10; Equity 50, Debt 40, Gold 10; Equity 70, Debt 20, Gold 10.
\<close>

theorem allocation_table:
  "map get_portfolio_allocation risk_options =
     [[(''Equity'', 30), (''Debt'', 60), (''Gold'', 10)],
      [(''Equity'', 50), (''Debt'', 40), (''Gold'', 10)],
      [(''Equity'', 70), (''Debt'', 20), (''Gold'', 10)]]"
  by (simp add: risk_options_def get_portfolio_allocation_def)

text \<open>
  C6. For each of the three risk labels, the Equity, Debt and Gold percentages of the
  returned allocation sum to exactly 100.
\<close>

theorem allocation_sums_to_100:
  "risk \<in> set risk_options \<Longrightarrow>
     map fst (get_portfolio_allocation risk) = [''Equity'', ''Debt'', ''Gold''] \<and>
     percent_total (get_portfolio_allocation risk) = 100"
  by (auto simp: risk_options_def get_portfolio_allocation_def percent_total_def)

theorem allocation_sums_to_100_witness:
  "''Medium'' \<in> set risk_options \<and>
   map fst (get_portfolio_allocation ''Medium'') = [''Equity'', ''Debt'', ''Gold''] \<and>
   percent_total (get_portfolio_allocation ''Medium'') = 100"
proof -
  have h: "''Medium'' \<in> set risk_options"
    by (simp add: risk_options_def)
  show ?thesis
    using h allocation_sums_to_100 [OF h] by simp
qed

text \<open>
  C9. The allocation is defined on every string: an input that is neither "Low" nor
  "Medium" (so "High", the empty string, any typo) gets the High allocation
  Equity 70, Debt 20, Gold 10, and the percentages sum to 100 for every input.
\<close>

theorem allocation_any_string:
  "(risk \<noteq> ''Low'' \<and> risk \<noteq> ''Medium'' \<longrightarrow>
      get_portfolio_allocation risk = [(''Equity'', 70), (''Debt'', 20), (''Gold'', 10)]) \<and>
   percent_total (get_portfolio_allocation risk) = 100"
  by (simp add: get_portfolio_allocation_def percent_total_def)

theorem allocation_any_string_witness:
  "''low'' \<noteq> ''Low'' \<and> ''low'' \<noteq> ''Medium'' \<and>
   get_portfolio_allocation ''low'' = [(''Equity'', 70), (''Debt'', 20), (''Gold'', 10)] \<and>
   get_portfolio_allocation [] = [(''Equity'', 70), (''Debt'', 20), (''Gold'', 10)] \<and>
   percent_total (get_portfolio_allocation ''low'') = 100"
  using allocation_any_string [of "''low''"] allocation_any_string [of "[]"]
  by (simp add: percent_total_def)

subsection \<open>Rounding\<close>

lemma py_round_bounds: "\<bar>real_of_int (py_round x) - x\<bar> \<le> 1 / 2"
  unfolding py_round_def Let_def by (auto; linarith)

lemma py_round_nearest:
  assumes "real_of_int k - 1 / 2 < x" "x < real_of_int k + 1 / 2"
  shows "py_round x = k"
proof -
  have "\<bar>real_of_int (py_round x) - x\<bar> \<le> 1 / 2"
    by (rule py_round_bounds)
  with assms have "\<bar>real_of_int (py_round x) - real_of_int k\<bar> < 1"
    by linarith
  then have "\<bar>real_of_int (py_round x - k)\<bar> < 1"
    by simp
  then have "\<bar>py_round x - k\<bar> < 1"
    by linarith
  then show ?thesis
    by linarith
qed

lemma py_round_of_int [simp]: "py_round (of_int n) = n"
  by (simp add: py_round_def)

lemma py_round_0 [simp]: "py_round 0 = 0"
  by (simp add: py_round_def)

lemma round_double_0 [simp]: "round_double 0 = Fin 0"
  by (simp add: round_double_def)

text \<open>An int of magnitude below \<open>2 ^ 53\<close> is a binary64 value.\<close>

lemma ulp_exponent_of_int:
  assumes "n \<noteq> 0" "\<bar>n\<bar> < 2 ^ 53"
  shows "- 52 \<le> ulp_exponent (of_int n)" "ulp_exponent (of_int n) \<le> 0"
proof -
  let ?x = "real_of_int n"
  have x1: "1 \<le> \<bar>?x\<bar>"
    using assms(1) by (simp add: of_int_abs [symmetric] del: of_int_abs)
  then have "0 \<le> log 2 \<bar>?x\<bar>"
    by simp
  then have k0: "0 \<le> \<lfloor>log 2 \<bar>?x\<bar>\<rfloor>"
    by simp
  have "\<bar>?x\<bar> < 2 ^ 53"
    using assms(2) by (metis of_int_abs of_int_less_numeral_power_cancel_iff)
  then have "log 2 \<bar>?x\<bar> < 53"
    using x1 by (simp add: log_less_iff powr_realpow [symmetric])
  then have k1: "\<lfloor>log 2 \<bar>?x\<bar>\<rfloor> \<le> 52"
    by linarith
  show "- 52 \<le> ulp_exponent (of_int n)" "ulp_exponent (of_int n) \<le> 0"
    using k0 k1 by (simp_all add: ulp_exponent_def)
qed

lemma round_double_of_int:
  assumes "\<bar>n\<bar> < 2 ^ 53"
  shows "round_double (of_int n) = Fin (of_int n)"
proof (cases "n = 0")
  case True
  then show ?thesis
    by simp
next
  case False
  define e where "e = ulp_exponent (of_int n)"
  define m where "m = nat (- e)"
  have e: "- 52 \<le> e" "e \<le> 0"
    using ulp_exponent_of_int [OF False assms] by (simp_all add: e_def)
  then have pe: "(2::real) powi e = 1 / 2 ^ m"
    by (simp add: m_def power_int_def inverse_eq_divide power_one_over)
  have "real_of_int n / 2 powi e = of_int (n * 2 ^ m)"
    by (simp add: pe)
  then have r: "py_round (real_of_int n / 2 powi e) = n * 2 ^ m"
    by (simp only: py_round_of_int)
  have y: "of_int (py_round (real_of_int n / 2 powi e)) * 2 powi e = real_of_int n"
    unfolding r by (simp add: pe)
  have "\<bar>real_of_int n\<bar> < 2 ^ 53"
    using assms by (metis of_int_abs of_int_less_numeral_power_cancel_iff)
  also have "(2::real) ^ 53 \<le> 2 ^ 1024"
    by (rule power_increasing) simp_all
  finally have small: "\<not> 2 ^ 1024 \<le> \<bar>real_of_int n\<bar>"
    by simp
  show ?thesis
    using False small by (simp add: round_double_def Let_def e_def [symmetric] y)
qed

lemma round_double_1 [simp]: "round_double 1 = Fin 1"
  using round_double_of_int [of 1] by simp

text \<open>A real number of magnitude at most 1 rounds to a finite value.\<close>

lemma round_double_le_1_finite:
  assumes "\<bar>x\<bar> \<le> 1"
  shows "\<exists>q. round_double x = Fin q"
proof (cases "x = 0")
  case True
  then show ?thesis
    by simp
next
  case False
  define e where "e = ulp_exponent x"
  have "log 2 \<bar>x\<bar> \<le> 0"
    using False assms by (simp add: log_le_zero_cancel_iff)
  then have "\<lfloor>log 2 \<bar>x\<bar>\<rfloor> \<le> 0"
    by linarith
  then have e: "e \<le> 0"
    by (simp add: e_def ulp_exponent_def)
  then have p: "(2::real) powi e \<le> 1" "0 < (2::real) powi e"
    by (simp_all add: power_int_def power_le_one_iff inverse_eq_divide)
  define t where "t = x / 2 powi e"
  have "\<bar>real_of_int (py_round t) - t\<bar> \<le> 1 / 2"
    by (rule py_round_bounds)
  then have "\<bar>real_of_int (py_round t)\<bar> \<le> \<bar>t\<bar> + 1 / 2"
    by linarith
  then have "\<bar>real_of_int (py_round t)\<bar> * 2 powi e \<le> (\<bar>t\<bar> + 1 / 2) * 2 powi e"
    using p by (intro mult_right_mono) simp_all
  also have "\<dots> = \<bar>x\<bar> + 2 powi e / 2"
    using p by (simp add: t_def field_simps abs_mult)
  also have "\<dots> \<le> 2"
    using assms p by linarith
  also have "(2::real) < 2 ^ 1024"
    using power_strict_increasing [of 1 1024 "2::real"] by simp
  finally have "\<bar>real_of_int (py_round t) * 2 powi e\<bar> < 2 ^ 1024"
    using p by (simp add: abs_mult)
  then show ?thesis
    using False by (simp add: round_double_def Let_def e_def [symmetric] t_def [symmetric])
qed

lemma float_of_int_small: "\<bar>n\<bar> < 2 ^ 53 \<Longrightarrow> float_of_int n = Inr (Fin (of_int n))"
  by (simp add: float_of_int_def round_double_of_int)

lemma float_of_int_cases:
  "float_of_int n = Inl OverflowError \<or> (\<exists>a. float_of_int n = Inr (Fin a))"
  by (simp add: float_of_int_def split: double.splits)

lemma int_true_div_1:
  assumes "years \<noteq> 0"
  shows "\<exists>e. int_true_div 1 years = Inr e"
proof -
  have "1 \<le> \<bar>real_of_int years\<bar>"
    using assms by (simp add: of_int_abs [symmetric] del: of_int_abs)
  then have "\<bar>of_int 1 / real_of_int years\<bar> \<le> 1"
    by simp
  then obtain q where "round_double (of_int 1 / real_of_int years) = Fin q"
    using round_double_le_1_finite by blast
  then show ?thesis
    using assms by (simp add: int_true_div_def)
qed

text \<open>
  The rounding error of \<open>round_double\<close>: below the overflow range the result is finite
  and differs from the argument by at most \<open>2 ^ - 53\<close> of its magnitude, or by
  \<open>2 ^ - 1075\<close> among the subnormal values.
\<close>

lemma two_powr_of_int: "(2::real) powr of_int k = 2 powi k"
  by (simp add: powr_real_of_int power_int_def power_one_over inverse_eq_divide)

lemma floor_log2_bounds:
  assumes "x \<noteq> 0"
  shows "2 powi \<lfloor>log 2 \<bar>x\<bar>\<rfloor> \<le> \<bar>x\<bar>" "\<bar>x\<bar> < 2 powi (\<lfloor>log 2 \<bar>x\<bar>\<rfloor> + 1)"
proof -
  have "2 powr of_int \<lfloor>log 2 \<bar>x\<bar>\<rfloor> \<le> \<bar>x\<bar> \<and> \<bar>x\<bar> < 2 powr of_int (\<lfloor>log 2 \<bar>x\<bar>\<rfloor> + 1)"
    using assms floor_log_eq_powr_iff [of "\<bar>x\<bar>" 2 "\<lfloor>log 2 \<bar>x\<bar>\<rfloor>"] by simp
  then show "2 powi \<lfloor>log 2 \<bar>x\<bar>\<rfloor> \<le> \<bar>x\<bar>" "\<bar>x\<bar> < 2 powi (\<lfloor>log 2 \<bar>x\<bar>\<rfloor> + 1)"
    by (simp_all only: two_powr_of_int)
qed

lemma round_double_error:
  assumes "\<bar>x\<bar> < 2 ^ 1023"
  shows "\<exists>y. round_double x = Fin y \<and> \<bar>y - x\<bar> \<le> \<bar>x\<bar> / 2 ^ 53 + 1 / 2 ^ 1075"
proof (cases "x = 0")
  case True
  then show ?thesis by simp
next
  case False
  define k where "k = \<lfloor>log 2 \<bar>x\<bar>\<rfloor>"
  define e where "e = ulp_exponent x"
  define t where "t = x / 2 powi e"
  define y where "y = real_of_int (py_round t) * 2 powi e"
  have pos: "0 < (2::real) powi e" by simp
  have lo: "2 powi k \<le> \<bar>x\<bar>" and hi: "\<bar>x\<bar> < 2 powi (k + 1)"
    using floor_log2_bounds [OF False] by (simp_all add: k_def)
  have e_def': "e = max k (- 1022) - 52"
    by (simp add: e_def ulp_exponent_def k_def)
  have "log 2 \<bar>x\<bar> < 1023"
    using False assms by (simp add: log_less_iff powr_realpow [symmetric])
  then have k_le: "k \<le> 1022"
    unfolding k_def by linarith
  have x_eq: "x = t * 2 powi e"
    by (simp add: t_def)
  have "\<bar>y - x\<bar> = \<bar>real_of_int (py_round t) - t\<bar> * 2 powi e"
    unfolding y_def by (subst x_eq) (simp add: left_diff_distrib [symmetric] abs_mult)
  also have "\<dots> \<le> 1 / 2 * 2 powi e"
    using py_round_bounds [of t] pos by (intro mult_right_mono) simp_all
  finally have err: "\<bar>y - x\<bar> \<le> 2 powi e / 2"
    by simp
  have half: "2 powi e / 2 \<le> \<bar>x\<bar> / 2 ^ 53 + 1 / 2 ^ 1075"
  proof (cases "- 1022 \<le> k")
    case True
    then have "e = k - 52" by (simp add: e_def')
    then have "2 powi e / 2 = (2::real) powi k / 2 ^ 53"
      by (simp add: power_int_diff)
    also have "\<dots> \<le> \<bar>x\<bar> / 2 ^ 53"
      using lo by (simp add: divide_right_mono)
    finally show ?thesis by simp
  next
    case False
    then have "e = - 1074" by (simp add: e_def')
    then have "2 powi e / 2 = 1 / (2::real) ^ 1075"
      by (simp add: power_int_minus inverse_eq_divide)
    then show ?thesis by simp
  qed
  have "e \<le> 970" using k_le by (simp add: e_def')
  then have "(2::real) powi e \<le> 2 powi 970"
    by (intro power_int_increasing) simp_all
  then have pe: "(2::real) powi e / 2 \<le> 2 ^ 969"
    by simp
  have "\<bar>y\<bar> \<le> \<bar>x\<bar> + \<bar>y - x\<bar>" by linarith
  also have "\<dots> < 2 ^ 1023 + 2 ^ 969"
    using assms err pe by linarith
  also have "\<dots> \<le> (2::real) ^ 1024"
    by simp
  finally have fin: "\<not> 2 ^ 1024 \<le> \<bar>y\<bar>" by simp
  have "round_double x = Fin y"
    using False fin by (simp add: round_double_def Let_def e_def [symmetric] t_def [symmetric] y_def [symmetric])
  with err half show ?thesis by force
qed

text \<open>
  Evaluation of \<open>round_double\<close> at a value of magnitude in
  \<open>[2 ^ (52 - j), 2 ^ (53 - j))\<close>: the result is the rounded multiple of \<open>2 ^ - j\<close>.
\<close>

lemma round_double_at:
  assumes lo: "2 ^ 52 \<le> \<bar>x\<bar> * 2 ^ j" and hi: "\<bar>x\<bar> * 2 ^ j < 2 ^ 53" and j: "j \<le> 1074"
    and m: "py_round (x * 2 ^ j) = m"
  shows "round_double x = Fin (real_of_int m / 2 ^ j)"
proof -
  have x0: "x \<noteq> 0"
    using lo by auto
  have p: "(2::real) powi (52 - int j) = 2 ^ 52 / 2 ^ j" "(2::real) powi (52 - int j + 1) = 2 ^ 53 / 2 ^ j"
    by (simp_all add: power_int_diff power_int_add)
  have "2 powi (52 - int j) \<le> \<bar>x\<bar>" "\<bar>x\<bar> < 2 powi (52 - int j + 1)"
    using lo hi unfolding p by (simp_all add: field_simps)
  then have "2 powr real_of_int (52 - int j) \<le> \<bar>x\<bar> \<and> \<bar>x\<bar> < 2 powr real_of_int (52 - int j + 1)"
    by (simp only: two_powr_of_int)
  then have "\<lfloor>log 2 \<bar>x\<bar>\<rfloor> = 52 - int j"
    using x0 floor_log_eq_powr_iff [of "\<bar>x\<bar>" 2 "52 - int j"] by simp
  then have e: "ulp_exponent x = - int j"
    using j by (simp add: ulp_exponent_def)
  have pe: "(2::real) powi (- int j) = 1 / 2 ^ j"
    by (simp add: power_int_minus inverse_eq_divide)
  define z where "z = x * 2 ^ j"
  have "\<bar>z\<bar> < 2 ^ 53"
    using hi by (simp add: z_def abs_mult)
  moreover have "\<bar>real_of_int m - z\<bar> \<le> 1 / 2"
    using py_round_bounds [of z] m by (simp add: z_def)
  ultimately have mb: "\<bar>real_of_int m\<bar> < 2 ^ 53 + 1"
    by linarith
  have "\<bar>real_of_int m / 2 ^ j\<bar> = \<bar>real_of_int m\<bar> / 2 ^ j"
    by simp
  also have "\<dots> \<le> \<bar>real_of_int m\<bar> / 1"
    by (intro divide_left_mono) simp_all
  also have "\<dots> < 2 ^ 53 + 1"
    using mb by simp
  also have "(2::real) ^ 53 + 1 \<le> 2 ^ 1024"
    by simp
  finally have "\<not> 2 ^ 1024 \<le> \<bar>real_of_int m / 2 ^ j\<bar>"
    by simp
  then show ?thesis
    using x0 by (simp add: round_double_def Let_def e pe m)
qed

lemma py_round_numeral [simp]: "py_round (numeral w) = numeral w"
  using py_round_of_int [of "numeral w"] by simp


lemma round_double_numeral [simp]:
  "\<bar>numeral w :: int\<bar> < 2 ^ 53 \<Longrightarrow> round_double (numeral w) = Fin (numeral w)"
  using round_double_of_int [of "numeral w"] by simp


subsection \<open>Monthly investment plan at rate 0\<close>

lemma monthly_rate_of_0 [simp]: "monthly_rate_of 0 = Fin 0"
  by (simp add: monthly_rate_of_def d_div_def)

lemma float_pow_base_1:
  "float_pow pw (Fin 1) n = Inl OverflowError \<or> float_pow pw (Fin 1) n = Inr (Fin 1)"
  using float_of_int_cases [of n]
  by (auto simp: float_pow_def and_then_def split: if_splits)

lemma float_pow_base_1_small:
  "\<bar>n\<bar> < 2 ^ 53 \<Longrightarrow> float_pow pw (Fin 1) n = Inr (Fin 1)"
  by (simp add: float_pow_def and_then_def float_of_int_small)

lemma goal_monthly_zero_rate:
  "goal_monthly pw target 0 years = Inl ZeroDivisionError \<or>
   goal_monthly pw target 0 years = Inl OverflowError"
  using float_of_int_cases [of target] float_pow_base_1 [of pw "years * 12"]
  by (auto simp: goal_monthly_def and_then_def Let_def d_add_def d_sub_def d_neg_def d_mul_def
      float_div_def)

lemma goal_monthly_zero_rate_small:
  "\<bar>target\<bar> < 2 ^ 53 \<Longrightarrow> \<bar>years * 12\<bar> < 2 ^ 53 \<Longrightarrow>
     goal_monthly pw target 0 years = Inl ZeroDivisionError"
  by (simp add: goal_monthly_def and_then_def Let_def d_add_def d_sub_def d_neg_def d_mul_def
      float_div_def float_of_int_small float_pow_base_1_small)

lemma monthly_future_value_zero_rate:
  "monthly_future_value pw monthly 0 years = Inl ZeroDivisionError \<or>
   monthly_future_value pw monthly 0 years = Inl OverflowError"
  using float_pow_base_1 [of pw "years * 12"]
  by (auto simp: monthly_future_value_def and_then_def Let_def d_add_def d_sub_def d_neg_def
      float_div_def)

lemma monthly_future_value_zero_rate_small:
  "\<bar>years * 12\<bar> < 2 ^ 53 \<Longrightarrow>
     monthly_future_value pw monthly 0 years = Inl ZeroDivisionError"
  by (simp add: monthly_future_value_def and_then_def Let_def d_add_def d_sub_def d_neg_def
      float_div_def float_pow_base_1_small)

text \<open>
  C1, as the code has it. Neither branch has a zero-rate fallback. At an annual rate of
  exactly 0, whatever the C library, the amount and the duration, neither branch
  returns a number: \<open>monthly_rate\<close> is 0.0 and \<open>(1 + monthly_rate) ** months\<close> is 1.0,
  so the goal branch divides 0.0 by 0.0 and the monthly branch divides 0.0 by 0.0, and
  Python raises \<^verbatim>\<open>ZeroDivisionError\<close>. (The only other outcome is \<^verbatim>\<open>OverflowError\<close>, for
  an int too large to convert to a float; it needs an amount or a month count beyond
  \<open>2 ^ 53\<close>.)
\<close>

theorem zero_rate_no_fallback:
  "(goal_monthly pw target 0 years = Inl ZeroDivisionError \<or>
    goal_monthly pw target 0 years = Inl OverflowError) \<and>
   (monthly_future_value pw monthly 0 years = Inl ZeroDivisionError \<or>
    monthly_future_value pw monthly 0 years = Inl OverflowError) \<and>
   (\<bar>target\<bar> < 2 ^ 53 \<and> \<bar>years * 12\<bar> < 2 ^ 53 \<longrightarrow>
      goal_monthly pw target 0 years = Inl ZeroDivisionError \<and>
      monthly_future_value pw monthly 0 years = Inl ZeroDivisionError)"
  using goal_monthly_zero_rate [of pw target years]
    monthly_future_value_zero_rate [of pw monthly years]
    goal_monthly_zero_rate_small [of target years pw]
    monthly_future_value_zero_rate_small [of years pw monthly]
  by blast

theorem zero_rate_no_fallback_witness:
  "\<bar>120000 :: int\<bar> < 2 ^ 53 \<and> \<bar>10 * 12 :: int\<bar> < 2 ^ 53 \<and>
   goal_monthly pow_rounded 120000 0 10 = Inl ZeroDivisionError \<and>
   monthly_future_value pow_rounded 1000 0 10 = Inl ZeroDivisionError"
  using zero_rate_no_fallback [of pow_rounded 120000 10 1000] by simp

text \<open>
  C1 as stated fails: at rate 0 over 10 years, target 120000 does not give 1000 and
  monthly 1000 does not give 120000; both computations raise.
\<close>

theorem zero_rate_counterexample:
  "goal_monthly pow_rounded 120000 0 10 = Inl ZeroDivisionError \<and>
   goal_monthly pow_rounded 120000 0 10 \<noteq> Inr 1000 \<and>
   monthly_future_value pow_rounded 1000 0 10 = Inl ZeroDivisionError \<and>
   monthly_future_value pow_rounded 1000 0 10 \<noteq> Inr 120000"
  by (simp add: goal_monthly_zero_rate_small monthly_future_value_zero_rate_small)

subsection \<open>CAGR\<close>

lemma fetch_cagr_none_iff:
  "fetch_cagr pw data years = Inr None \<longleftrightarrow>
     df_empty data \<or> \<not> df_contains data ''Adj Close''"
  by (auto simp: fetch_cagr_def df_contains_def Let_def and_then_def
      split: option.splits list.splits sum.splits)

lemma fetch_cagr_single:
  assumes "\<not> df_empty data" and "map_of (df_columns data) ''Adj Close'' = Some [p]"
    and "p \<noteq> 0" and "years \<noteq> 0"
  shows "fetch_cagr pw data years = Inr (Some (Fin 0))"
proof -
  obtain e where e: "int_true_div 1 years = Inr e"
    using int_true_div_1 [OF assms(4)] by blast
  have "np_round2 (Fin 0) = Fin 0"
    by (simp add: np_round2_def d_mul_def d_rint_def d_div_def)
  with assms e show ?thesis
    by (simp add: fetch_cagr_def df_contains_def Let_def and_then_def d_div_def np_power_def
        d_sub_def d_neg_def d_add_def d_mul_def)
qed

text \<open>
  C10. On a frame with exactly one row, whose price column holds the one price \<open>p\<close>,
  \<^verbatim>\<open>fetch_cagr\<close> does not return \<open>None\<close>; for a price \<open>p\<close> other than 0 and \<open>years\<close>
  other than 0 (where \<open>(p / p) ^ (1 / years)\<close> is defined) it returns 0.0, whatever the
  C library: \<open>p / p\<close> is exactly 1.0, 1.0 to any power is 1.0, and the rest is exact.
\<close>

theorem fetch_cagr_single_observation:
  "df_index data = [d] \<and> map_of (df_columns data) ''Adj Close'' = Some [p] \<longrightarrow>
     fetch_cagr pw data years \<noteq> Inr None \<and>
     (p \<noteq> 0 \<and> years \<noteq> 0 \<longrightarrow> fetch_cagr pw data years = Inr (Some (Fin 0)))"
proof (intro impI conjI)
  assume a: "df_index data = [d] \<and> map_of (df_columns data) ''Adj Close'' = Some [p]"
  then have ne: "\<not> df_empty data"
    by (auto simp: df_empty_def)
  from a have "df_contains data ''Adj Close''"
    by (simp add: df_contains_def)
  with ne show "fetch_cagr pw data years \<noteq> Inr None"
    by (simp add: fetch_cagr_none_iff)
  assume "p \<noteq> 0 \<and> years \<noteq> 0"
  with ne a show "fetch_cagr pw data years = Inr (Some (Fin 0))"
    by (simp add: fetch_cagr_single)
qed

theorem fetch_cagr_single_observation_witness:
  "df_index \<lparr>df_index = [''2025-01-01''], df_columns = [(''Adj Close'', [250])]\<rparr> =
     [''2025-01-01''] \<and>
   map_of [(''Adj Close'', [250 :: real])] ''Adj Close'' = Some [250] \<and>
   (250::real) \<noteq> 0 \<and> (5::int) \<noteq> 0 \<and>
   fetch_cagr pow_rounded
     \<lparr>df_index = [''2025-01-01''], df_columns = [(''Adj Close'', [250])]\<rparr> 5 =
     Inr (Some (Fin 0))"
  using fetch_cagr_single_observation
          [of "\<lparr>df_index = [''2025-01-01''], df_columns = [(''Adj Close'', [250])]\<rparr>"
              "''2025-01-01''" 250 pow_rounded 5]
  by simp

subsection \<open>Average CAGR\<close>

text \<open>
  The binary64 sum of at most \<open>N\<close> values of magnitude at most \<open>B\<close> differs from
  the exact sum by at most \<open>4 * N * B / 2 ^ 53\<close> for each value added.
\<close>

lemma d_add_Fin: "d_add (Fin a) (Fin b) = round_double (a + b)"
  by (simp add: d_add_def)

lemma np_sum_error_from:
  fixes B c :: real and N :: nat
  assumes B: "1 \<le> B" "B \<le> 2 ^ 1000" and N: "N \<le> 1024"
    and c: "c = 4 * (real N * B) / 2 ^ 53"
    and vs: "\<forall>v\<in>set vs. \<bar>v\<bar> \<le> B"
    and len: "i + length vs \<le> N"
    and acc: "\<bar>a - A\<bar> \<le> real i * c" "\<bar>A\<bar> \<le> real i * B"
  shows "\<exists>s. foldl d_add (Fin a) (map Fin vs) = Fin s \<and>
             \<bar>s - (A + sum_list vs)\<bar> \<le> real (i + length vs) * c"
  using vs len acc
proof (induction vs arbitrary: a A i)
  case Nil
  then show ?case by simp
next
  case (Cons v vs)
  define P where "P = real N * B"
  have c_def: "c = 4 * P / 2 ^ 53"
    by (simp add: c P_def)
  have i1: "Suc i \<le> N"
    using Cons.prems(2) by simp
  then have N1: "1 \<le> real N"
    by simp
  have NB: "real N \<le> 1024"
    using N by simp
  have P1: "1 \<le> P"
    unfolding P_def using N1 B(1) by (metis mult_mono' zero_le_one mult_1)
  have "P \<le> 1024 * 2 ^ 1000"
    unfolding P_def using NB B by (intro mult_mono) simp_all
  then have Pu: "P \<le> 2 ^ 1010"
    by simp
  have c0: "0 \<le> c"
    using P1 by (simp add: c_def)
  have iB: "real i * B + B \<le> P"
  proof -
    have "real (Suc i) * B \<le> real N * B"
      using i1 B(1) by (intro mult_right_mono) simp_all
    then show ?thesis
      by (simp add: P_def algebra_simps)
  qed
  have "real i * c \<le> real N * c"
    using i1 c0 by (intro mult_right_mono) simp_all
  also have "\<dots> \<le> 1024 * c"
    using NB c0 by (intro mult_right_mono) simp_all
  also have "\<dots> \<le> P"
    using P1 by (simp add: c_def)
  finally have ic: "real i * c \<le> P" .
  have v: "\<bar>v\<bar> \<le> B"
    using Cons.prems(1) by simp
  have aA: "\<bar>a - A\<bar> \<le> real i * c" and A: "\<bar>A\<bar> \<le> real i * B"
    using Cons.prems(3,4) by simp_all
  have t: "\<bar>a + v\<bar> \<le> 2 * P"
    using aA A v iB ic by linarith
  have "(2::real) * 2 ^ 1010 < 2 ^ 1023"
    by simp
  then have "\<bar>a + v\<bar> < 2 ^ 1023"
    using t Pu by linarith
  then obtain s where s: "round_double (a + v) = Fin s"
    and se: "\<bar>s - (a + v)\<bar> \<le> \<bar>a + v\<bar> / 2 ^ 53 + 1 / 2 ^ 1075"
    using round_double_error by blast
  have "\<bar>a + v\<bar> / 2 ^ 53 \<le> 2 * P / 2 ^ 53"
    using t by (simp add: divide_right_mono)
  moreover have "(1::real) / 2 ^ 1075 \<le> 2 * P / 2 ^ 53"
  proof -
    have "(1::real) / 2 ^ 1075 \<le> 2 * 1 / 2 ^ 53"
      by simp
    also have "\<dots> \<le> 2 * P / 2 ^ 53"
      using P1 by (simp add: divide_right_mono)
    finally show ?thesis .
  qed
  ultimately have sc: "\<bar>s - (a + v)\<bar> \<le> c"
    using se by (simp add: c_def)
  have acc': "\<bar>s - (A + v)\<bar> \<le> real (Suc i) * c"
    using sc aA by (simp add: algebra_simps) 
  have A': "\<bar>A + v\<bar> \<le> real (Suc i) * B"
    using A v by (simp add: algebra_simps)
  have "\<exists>s'. foldl d_add (Fin s) (map Fin vs) = Fin s' \<and>
             \<bar>s' - (A + v + sum_list vs)\<bar> \<le> real (Suc i + length vs) * c"
  proof (rule Cons.IH)
    show "\<forall>v\<in>set vs. \<bar>v\<bar> \<le> B"
      using Cons.prems(1) by simp
    show "Suc i + length vs \<le> N"
      using Cons.prems(2) by simp
    show "\<bar>s - (A + v)\<bar> \<le> real (Suc i) * c"
      by (rule acc')
    show "\<bar>A + v\<bar> \<le> real (Suc i) * B"
      by (rule A')
  qed
  then show ?case
    by (simp add: d_add_Fin s add.assoc)
qed

lemma np_sum_error:
  fixes B :: real
  assumes "1 \<le> B" "B \<le> 2 ^ 1000" "length vs \<le> 1024" "\<forall>v\<in>set vs. \<bar>v\<bar> \<le> B"
  shows "\<exists>s. np_sum (map Fin vs) = Fin s \<and>
             \<bar>s - sum_list vs\<bar> \<le> real (length vs) * (4 * (real (length vs) * B) / 2 ^ 53)"
  using np_sum_error_from [of B "length vs" "4 * (real (length vs) * B) / 2 ^ 53" vs 0 0 0] assms
  unfolding np_sum_def by simp

lemma sum_list_abs_bound:
  fixes B :: real
  assumes "\<forall>v\<in>set vs. \<bar>v\<bar> \<le> B"
  shows "\<bar>sum_list vs\<bar> \<le> real (length vs) * B"
  using assms
proof (induction vs)
  case Nil
  then show ?case by simp
next
  case (Cons v vs)
  then have "\<bar>v\<bar> \<le> B" "\<bar>sum_list vs\<bar> \<le> real (length vs) * B"
    by simp_all
  then show ?case
    by (auto simp: algebra_simps)
qed

lemma avg_cagr_none_iff: "avg_cagr returns = None \<longleftrightarrow> present returns = []"
  by (simp add: avg_cagr_def Let_def)

lemma abs_div_100:
  fixes k :: int and mu :: real
  shows "\<bar>real_of_int k / 100 - mu\<bar> = \<bar>real_of_int k - 100 * mu\<bar> / 100"
proof -
  have "real_of_int k / 100 - mu = (real_of_int k - 100 * mu) / 100"
    by (simp add: diff_divide_distrib)
  then show ?thesis
    by (simp only: abs_divide)
qed

lemma present_map: "present (map (map_option f) xs) = map f (present xs)"
  by (induction xs rule: present.induct) simp_all

lemma d_div_Fin: "b \<noteq> 0 \<Longrightarrow> d_div (Fin a) (Fin b) = round_double (a / b)"
  by (simp add: d_div_def)

lemma d_mul_Fin: "d_mul (Fin a) (Fin b) = round_double (a * b)"
  by (simp add: d_mul_def)

lemma np_round2_Fin:
  "round_double (m * 100) = Fin p \<Longrightarrow>
     np_round2 (Fin m) = round_double (real_of_int (py_round p) / 100)"
  by (simp add: np_round2_def d_mul_Fin d_rint_def d_div_Fin)

lemma avg_cagr_value:
  assumes "present xs \<noteq> []"
    and "np_sum (map Fin (present xs)) = Fin s"
    and "round_double (s / real (length (present xs))) = Fin m"
    and "round_double (m * 100) = Fin p"
  shows "avg_cagr (map (map_option Fin) xs) = Some (round_double (real_of_int (py_round p) / 100))"
proof -
  have n: "real (length (present xs)) \<noteq> 0"
    using assms(1) by simp
  have "avg_cagr (map (map_option Fin) xs) =
        Some (np_round2 (d_div (np_sum (map Fin (present xs))) (Fin (real (length (present xs))))))"
    using assms(1) by (simp add: avg_cagr_def Let_def present_map)
  also have "d_div (np_sum (map Fin (present xs))) (Fin (real (length (present xs)))) = Fin m"
    unfolding assms(2) using assms(3) by (simp only: d_div_Fin [OF n])
  also have "np_round2 (Fin m) = round_double (real_of_int (py_round p) / 100)"
    using assms(4) by (rule np_round2_Fin)
  finally show ?thesis .
qed


lemma avg_cagr_error:
  fixes B :: real
  assumes ne: "present xs \<noteq> []" and len: "length (present xs) \<le> 1024"
    and B: "1 \<le> B" "B \<le> 2 ^ 1000" and vs: "\<forall>v\<in>set (present xs). \<bar>v\<bar> \<le> B"
  shows "\<exists>k. avg_cagr (map (map_option Fin) xs) = Some (round_double (real_of_int k / 100)) \<and>
             \<bar>real_of_int k / 100 - sum_list (present xs) / real (length (present xs))\<bar>
               \<le> 1 / 200 + (4 * real (length (present xs)) + 7) * B / 2 ^ 53"
proof -
  define vs where "vs = present xs"
  define n where "n = real (length vs)"
  define S where "S = sum_list vs"
  define u where "u = B / 2 ^ 53"
  define c where "c = 4 * (n * B) / 2 ^ 53"
  have n1: "1 \<le> n" "n \<le> 1024"
    using ne len by (simp_all add: n_def vs_def Suc_le_eq)
  have u0: "0 < u" "u \<le> B"
    using B by (simp_all add: u_def field_simps)
  have eta: "1 / 2 ^ 1075 \<le> u"
  proof -
    have "(1::real) / 2 ^ 1075 \<le> 1 / 2 ^ 53"
      by simp
    also have "\<dots> \<le> u"
      using B(1) by (simp add: u_def divide_right_mono)
    finally show ?thesis .
  qed
  have c_eq: "c = 4 * n * u"
    by (simp add: c_def u_def)
  have cB: "c \<le> B"
  proof -
    have "c \<le> 4 * 1024 * u"
      unfolding c_eq using n1 u0 by (intro mult_right_mono mult_left_mono) simp_all
    also have "\<dots> \<le> B"
      using B(1) by (simp add: u_def)
    finally show ?thesis .
  qed
  have big: "B < 2 ^ 1010"
  proof -
    have "(2::real) ^ 1000 < 2 ^ 1010" by simp
    with B(2) show ?thesis by linarith
  qed
  obtain s where s: "np_sum (map Fin vs) = Fin s" and se: "\<bar>s - S\<bar> \<le> n * c"
    using np_sum_error [of B vs] B len vs by (auto simp: vs_def n_def S_def c_def)
  have SB: "\<bar>S\<bar> \<le> n * B"
    using sum_list_abs_bound [of vs B] vs by (simp add: vs_def S_def n_def)
  have n0: "0 < n"
    using n1 by simp
  define a where "a = s / n"
  define mu where "mu = S / n"
  have mean: "\<bar>mu\<bar> \<le> B"
    using SB n0 by (simp add: mu_def field_simps)
  have "\<bar>a - mu\<bar> = \<bar>s - S\<bar> / n"
    using n0 by (simp add: a_def mu_def diff_divide_distrib [symmetric])
  also have "\<dots> \<le> n * c / n"
    using se n0 by (intro divide_right_mono) simp_all
  finally have q: "\<bar>a - mu\<bar> \<le> c"
    using n0 by simp
  then have qb: "\<bar>a\<bar> \<le> 2 * B"
    using mean cB by linarith
  then have "\<bar>a\<bar> < 2 ^ 1023"
    using big by simp
  then obtain m where m: "round_double a = Fin m"
    and me: "\<bar>m - a\<bar> \<le> \<bar>a\<bar> / 2 ^ 53 + 1 / 2 ^ 1075"
    using round_double_error by blast
  have "\<bar>a\<bar> / 2 ^ 53 \<le> 2 * B / 2 ^ 53"
    using qb by (intro divide_right_mono) simp_all
  then have "\<bar>a\<bar> / 2 ^ 53 \<le> 2 * u"
    by (simp add: u_def)
  then have me': "\<bar>m - a\<bar> \<le> 3 * u"
    using me eta by linarith
  have u3: "3 * u \<le> B"
    using B(1) by (simp add: u_def)
  have mb: "\<bar>m\<bar> \<le> 3 * B"
    using me' qb u3 by linarith
  define m100 where "m100 = m * 100"
  have "\<bar>m100\<bar> \<le> 300 * B"
    using mb by (simp add: m100_def abs_mult)
  then have m100: "\<bar>m100\<bar> < 2 ^ 1023" "\<bar>m100\<bar> / 2 ^ 53 \<le> 300 * u"
    using big by (simp_all add: u_def divide_right_mono)
  then obtain p where p: "round_double m100 = Fin p"
    and pe: "\<bar>p - m100\<bar> \<le> \<bar>m100\<bar> / 2 ^ 53 + 1 / 2 ^ 1075"
    using round_double_error by blast
  have pe': "\<bar>p - m100\<bar> \<le> 301 * u"
    using pe m100(2) eta by linarith
  define k where "k = py_round p"
  have ke: "\<bar>real_of_int k - p\<bar> \<le> 1 / 2"
    unfolding k_def by (rule py_round_bounds)
  have m100_eq: "m100 = 100 * m"
    by (simp add: m100_def)
  have "\<bar>m - mu\<bar> \<le> 3 * u + c"
    using me' q by linarith
  then have "100 * \<bar>m - mu\<bar> \<le> 100 * (3 * u + c)"
    by simp
  moreover have "\<bar>m100 - 100 * mu\<bar> = 100 * \<bar>m - mu\<bar>"
  proof -
    have "m100 - 100 * mu = 100 * (m - mu)"
      by (simp add: m100_eq algebra_simps)
    then show ?thesis
      by (simp only: abs_mult abs_numeral)
  qed
  ultimately have "\<bar>m100 - 100 * mu\<bar> \<le> 100 * (3 * u + c)"
    by simp
  then have "\<bar>p - 100 * mu\<bar> \<le> 301 * u + 100 * (3 * u + c)"
    using pe' by linarith
  then have "\<bar>real_of_int k - 100 * mu\<bar> \<le> 1 / 2 + 301 * u + 100 * (3 * u + c)"
    using ke by linarith
  moreover have "1 / 2 + 301 * u + 100 * (3 * u + c) = 1 / 2 + 601 * u + 100 * c"
    by (simp add: algebra_simps)
  ultimately have kb: "\<bar>real_of_int k - 100 * mu\<bar> \<le> 1 / 2 + 601 * u + 100 * c"
    by (simp only:)
  have "\<bar>real_of_int k / 100 - mu\<bar> = \<bar>real_of_int k - 100 * mu\<bar> / 100"
    by (rule abs_div_100)
  also have "\<dots> \<le> (1 / 2 + 601 * u + 100 * c) / 100"
    using kb by (intro divide_right_mono) simp_all
  also have "\<dots> = 1 / 200 + (601 / 100) * u + c"
    by simp
  also have "\<dots> \<le> 1 / 200 + 7 * u + c"
    using u0(1) by simp
  also have "\<dots> = 1 / 200 + (4 * n + 7) * u"
    unfolding c_eq by (simp only: distrib_right add.commute add.left_commute)
  also have "(4 * n + 7) * u = (4 * n + 7) * B / 2 ^ 53"
    by (simp only: u_def times_divide_eq_right)
  finally have bound: "\<bar>real_of_int k / 100 - mu\<bar> \<le> 1 / 200 + (4 * n + 7) * B / 2 ^ 53" .
  have "avg_cagr (map (map_option Fin) xs) = Some (round_double (real_of_int k / 100))"
    unfolding k_def
  proof (rule avg_cagr_value)
    show "present xs \<noteq> []"
      by (rule ne)
    show "np_sum (map Fin (present xs)) = Fin s"
      using s by (simp only: vs_def)
    show "round_double (s / real (length (present xs))) = Fin m"
      using m by (simp only: a_def n_def vs_def)
    show "round_double (m * 100) = Fin p"
      using p by (simp only: m100_def)
  qed
  with bound show ?thesis
    unfolding mu_def S_def n_def vs_def by blast
qed

lemma avg_cagr_error_finite:
  fixes B :: real
  assumes ne: "present xs \<noteq> []" and len: "length (present xs) \<le> 1024"
    and B: "1 \<le> B" "B \<le> 2 ^ 1000" and vs: "\<forall>v\<in>set (present xs). \<bar>v\<bar> \<le> B"
  shows "\<exists>k r. avg_cagr (map (map_option Fin) xs) = Some (Fin r) \<and>
             round_double (real_of_int k / 100) = Fin r \<and>
             \<bar>real_of_int k / 100 - sum_list (present xs) / real (length (present xs))\<bar>
               \<le> 1 / 200 + (4 * real (length (present xs)) + 7) * B / 2 ^ 53"
proof -
  define n where "n = real (length (present xs))"
  define mu where "mu = sum_list (present xs) / n"
  define t where "t = (4 * n + 7) * B / 2 ^ 53"
  obtain k where k: "avg_cagr (map (map_option Fin) xs) = Some (round_double (real_of_int k / 100))"
    and kb: "\<bar>real_of_int k / 100 - mu\<bar> \<le> 1 / 200 + t"
    using avg_cagr_error [OF assms] unfolding mu_def n_def t_def by blast
  have n: "0 < n" "n \<le> 1024"
    using ne len by (simp_all add: n_def)
  have "\<bar>sum_list (present xs)\<bar> \<le> n * B"
    using sum_list_abs_bound [of "present xs" B] vs by (simp add: n_def)
  then have mu: "\<bar>mu\<bar> \<le> B"
    using n(1) by (simp add: mu_def field_simps)
  have "4 * n + 7 \<le> 2 ^ 53"
    using n(2) by simp
  then have "(4 * n + 7) * B \<le> 2 ^ 53 * B"
    using B(1) by (intro mult_right_mono) simp_all
  then have t: "t \<le> B"
    by (simp add: t_def field_simps)
  have "\<bar>real_of_int k / 100\<bar> \<le> 3 * B"
    using kb mu t B(1) by linarith
  moreover have "3 * B < 2 ^ 1023"
  proof -
    have "3 * B \<le> 3 * 2 ^ 1000"
      using B(2) by simp
    also have "\<dots> < (2::real) ^ 1023"
      by simp
    finally show ?thesis .
  qed
  ultimately have "\<bar>real_of_int k / 100\<bar> < 2 ^ 1023"
    by linarith
  then obtain r where "round_double (real_of_int k / 100) = Fin r"
    using round_double_error by blast
  with k kb show ?thesis
    unfolding mu_def n_def t_def by auto
qed


text \<open>
  The average of the binary64 values nearest to 5.01 and 5.04, step by step: the sum is
  a tie and rounds to the even neighbour, the mean times 100 rounds up to
  502.50000000000006, and \<^verbatim>\<open>rint\<close> gives 503.
\<close>

lemma sum_step_501: "round_double (0 + 5640758533281546 / 2 ^ 50) = Fin (5640758533281546 / 2 ^ 50)"
  using round_double_at [of "5640758533281546 / 2 ^ 50" 50 5640758533281546] by simp

lemma sum_step_501_504: "round_double (5640758533281546 / 2 ^ 50 + 5674535530486825 / 2 ^ 50) = Fin (5657647031884186 / 2 ^ 49)"
proof -
  have "py_round ((5640758533281546 / 2 ^ 50 + 5674535530486825 / 2 ^ 50) * 2 ^ 49) = 5657647031884186"
    by (simp add: py_round_def Let_def)
  then show ?thesis
    using round_double_at [of "5640758533281546 / 2 ^ 50 + 5674535530486825 / 2 ^ 50" 49 5657647031884186] by simp
qed


lemma mean_step_501_504: "round_double (5657647031884186 / 2 ^ 49 / real (length [a, b :: double])) = Fin (5657647031884186 / 2 ^ 50)"
  using round_double_at [of "5657647031884186 / 2 ^ 50" 50 5657647031884186] by simp

lemma scale_step_501_504: "round_double (5657647031884186 / 2 ^ 50 * 100) = Fin (8840073487319041 / 2 ^ 44)"
proof -
  have "py_round (5657647031884186 / 2 ^ 50 * 100 * 2 ^ 44) = 8840073487319041"
    by (simp add: py_round_def Let_def)
  then show ?thesis
    using round_double_at [of "5657647031884186 / 2 ^ 50 * 100" 44 8840073487319041] by simp
qed

lemma rint_step_501_504: "py_round (8840073487319041 / 2 ^ 44) = 503"
  by (simp add: py_round_def Let_def)

lemma round_double_503: "round_double (503 / 100) = Fin (5663276531418399 / 2 ^ 50)"
proof -
  have "py_round (503 / 100 * 2 ^ 50) = 5663276531418399"
    by (simp add: py_round_def Let_def)
  then show ?thesis
    using round_double_at [of "503 / 100" 50 5663276531418399] by simp
qed

lemma round_double_502: "round_double (502 / 100) = Fin (5652017532349972 / 2 ^ 50)"
proof -
  have "py_round (502 / 100 * 2 ^ 50) = 5652017532349972"
    by (simp add: py_round_def Let_def)
  then show ?thesis
    using round_double_at [of "502 / 100" 50 5652017532349972] by simp
qed

lemma np_sum_two: "np_sum [Fin a, Fin b] = d_add (round_double (0 + a)) (Fin b)"
  by (simp add: np_sum_def d_add_Fin)

lemma avg_501_504:
  "avg_cagr [Some (Fin (5640758533281546 / 2 ^ 50)), Some (Fin (5674535530486825 / 2 ^ 50)), None] =
     Some (Fin (5663276531418399 / 2 ^ 50))"
proof -
  have "avg_cagr (map (map_option Fin) [Some (5640758533281546 / 2 ^ 50), Some (5674535530486825 / 2 ^ 50), None]) =
        Some (round_double (real_of_int (py_round (8840073487319041 / 2 ^ 44)) / 100))"
  proof (rule avg_cagr_value)
    show "present [Some (5640758533281546 / 2 ^ 50 :: real), Some (5674535530486825 / 2 ^ 50), None] \<noteq> []"
      by simp
    show "np_sum (map Fin (present [Some (5640758533281546 / 2 ^ 50), Some (5674535530486825 / 2 ^ 50), None])) =
          Fin (5657647031884186 / 2 ^ 49)"
      using sum_step_501 sum_step_501_504 by (simp add: np_sum_two d_add_Fin)
    show "round_double (5657647031884186 / 2 ^ 49 /
            real (length (present [Some (5640758533281546 / 2 ^ 50 :: real), Some (5674535530486825 / 2 ^ 50), None]))) =
          Fin (5657647031884186 / 2 ^ 50)"
      using mean_step_501_504 by simp
    show "round_double (5657647031884186 / 2 ^ 50 * 100) = Fin (8840073487319041 / 2 ^ 44)"
      by (rule scale_step_501_504)
  qed
  then show ?thesis
    using rint_step_501_504 round_double_503 by simp
qed

lemma avg_10_20: "avg_cagr [Some (Fin 10), None, Some (Fin 20)] = Some (Fin 15)"
  by (simp add: avg_cagr_def np_sum_def d_add_Fin d_div_Fin np_round2_def d_mul_Fin d_rint_def)

lemma avg_none: "avg_cagr [None, None] = None"
  by (simp add: avg_cagr_def)

lemma round_double_501: "round_double (501 / 100) = Fin (5640758533281546 / 2 ^ 50)"
proof -
  have "py_round (501 / 100 * 2 ^ 50) = 5640758533281546"
    by (simp add: py_round_def Let_def)
  then show ?thesis
    using round_double_at [of "501 / 100" 50 5640758533281546] by simp
qed

lemma round_double_504: "round_double (504 / 100) = Fin (5674535530486825 / 2 ^ 50)"
proof -
  have "py_round (504 / 100 * 2 ^ 50) = 5674535530486825"
    by (simp add: py_round_def Let_def)
  then show ?thesis
    using round_double_at [of "504 / 100" 50 5674535530486825] by simp
qed

text \<open>
  C8, as the code computes it. The average is absent exactly when no value is present.
  Otherwise it is the mean of the present values computed in binary64 (the sum from
  left to right, divided by the count) and rounded to two decimals the way numpy does
  it (times 100, \<^verbatim>\<open>rint\<close>, divided by 100): the result is the binary64 value nearest
  to \<open>k / 100\<close> for a whole number \<open>k\<close>, and \<open>k / 100\<close> is within
  \<open>0.005 + (4 * n + 7) * B / 2 ^ 53\<close> of the exact mean, for \<open>n\<close> present values, at
  most 1024, of magnitude at most \<open>B\<close>, with \<open>1 \<le> B \<le> 2 ^ 1000\<close>. On 10.0, absent,
  20.0 it is 15.0; on absent, absent it is absent.
\<close>

theorem avg_cagr_mean:
  "(avg_cagr returns = None \<longleftrightarrow> present returns = []) \<and>
   (present xs \<noteq> [] \<and> length (present xs) \<le> 1024 \<and> 1 \<le> B \<and> B \<le> 2 ^ 1000 \<and>
    (\<forall>v\<in>set (present xs). \<bar>v\<bar> \<le> B) \<longrightarrow>
      (\<exists>k r. avg_cagr (map (map_option Fin) xs) = Some (Fin r) \<and>
             round_double (real_of_int k / 100) = Fin r \<and>
             \<bar>real_of_int k / 100 - sum_list (present xs) / real (length (present xs))\<bar>
               \<le> 1 / 200 + (4 * real (length (present xs)) + 7) * B / 2 ^ 53)) \<and>
   avg_cagr [Some (Fin 10), None, Some (Fin 20)] = Some (Fin 15) \<and>
   avg_cagr [None, None] = None"
  using avg_cagr_none_iff [of returns] avg_cagr_error_finite [of xs B] avg_10_20 avg_none
  by blast

theorem avg_cagr_mean_witness:
  "present [Some (10::real), None, Some 20] \<noteq> [] \<and>
   length (present [Some (10::real), None, Some 20]) \<le> 1024 \<and>
   (1::real) \<le> 20 \<and> (20::real) \<le> 2 ^ 1000 \<and> \<bar>10::real\<bar> \<le> 20 \<and> \<bar>20::real\<bar> \<le> 20 \<and>
   (\<exists>k r. avg_cagr [Some (Fin 10), None, Some (Fin 20)] = Some (Fin r) \<and>
      round_double (real_of_int k / 100) = Fin r \<and>
      \<bar>real_of_int k / 100 - (10 + 20) / 2\<bar> \<le> 1 / 200 + (4 * 2 + 7) * 20 / 2 ^ 53)"
  using avg_cagr_mean [of "[]" "[Some 10, None, Some 20]" 20]
  by auto

text \<open>
  C8 as stated fails. The values are the binary64 numbers nearest to 5.01 and 5.04.
  Their exact mean times 100 is within one half of 502, so the mean rounded to two
  decimals is 5.02; the code returns the binary64 number nearest to 5.03.
\<close>

theorem avg_cagr_mean_counterexample:
  "round_double (501 / 100) = Fin (5640758533281546 / 2 ^ 50) \<and>
   round_double (504 / 100) = Fin (5674535530486825 / 2 ^ 50) \<and>
   avg_cagr [Some (Fin (5640758533281546 / 2 ^ 50)), Some (Fin (5674535530486825 / 2 ^ 50)), None] =
     Some (Fin (5663276531418399 / 2 ^ 50)) \<and>
   round_double (503 / 100) = Fin (5663276531418399 / 2 ^ 50) \<and>
   \<bar>(5640758533281546 / 2 ^ 50 + 5674535530486825 / 2 ^ 50) / 2 * 100 - (502::real)\<bar> < 1 / 2 \<and>
   round_double (502 / 100) = Fin (5652017532349972 / 2 ^ 50) \<and>
   (5652017532349972 / 2 ^ 50 :: real) \<noteq> 5663276531418399 / 2 ^ 50"
  using round_double_501 round_double_504 avg_501_504 round_double_503 round_double_502
  by simp

end
